theory Spec2Isabelle
  imports Main "HOL-Library.AList"
begin

section \<open>Data model\<close>

text \<open>
  The two source files are the React context \<open>SiteRatingsProvider\<close> (safety ratings of a
  site) and the hook \<open>useCommentVotes\<close> (votes on comments). Both read attestation objects
  that the hook \<open>useAttestations\<close> returns. The fields the code reads are \<open>signer\<close>,
  \<open>attester\<close>, \<open>attestTimestamp\<close> and \<open>decodedData\<close> with its members \<open>isSafe\<close> and
  \<open>vote\<close>.

  \<^item> \<open>attestTimestamp\<close> stands for the number that \<open>new Date(attestTimestamp)\<close> compares by
    (milliseconds); the data model takes timestamps to be totally ordered, so it is an
    \<open>int\<close>, and a timestamp that parses to no date is outside the model.
  \<^item> \<open>vote\<close> is the number the code tests with \<open>=== 1\<close> and \<open>=== -1\<close>; any other number
    is a third case of the code, so it is an \<open>int\<close>.
  \<^item> Signers are address strings; \<open>toLowerCase\<close> is modelled on ASCII letters, the only
    letters of a hexadecimal address.
\<close>

record decoded =
  isSafe :: bool
  vote :: int

record attestation =
  signer :: string
  attester :: string
  attestTimestamp :: int
  decodedData :: decoded

definition toLowerCase_char :: "char \<Rightarrow> char" where
  "toLowerCase_char c =
     (case map_of (zip ''ABCDEFGHIJKLMNOPQRSTUVWXYZ'' ''abcdefghijklmnopqrstuvwxyz'') c of
        None \<Rightarrow> c
      | Some l \<Rightarrow> l)"

definition toLowerCase :: "string \<Rightarrow> string" where
  "toLowerCase s = map toLowerCase_char s"

text \<open>
  JavaScript truthiness of a value of type \<open>string | null | undefined\<close>: \<open>null\<close>,
  \<open>undefined\<close> (here \<open>None\<close>) and the empty string are falsy. The functions below read
  an optional string with \<open>the\<close> only behind the test that it is truthy.
\<close>

fun truthy :: "string option \<Rightarrow> bool" where
  "truthy None = False"
| "truthy (Some s) = (s \<noteq> [])"

section \<open>useCommentVotes: resolving the latest vote of every signer\<close>

text \<open>
  The accumulator of the \<open>reduce\<close> is an object used as a dictionary from the lower-cased
  attester to the attestation held for it. It is an association list in insertion order,
  which is the order \<open>Object.values\<close> enumerates address keys in; assigning to a key
  that is present keeps its position (\<open>AList.update\<close>). A key is an address starting
  with \<open>0x\<close>, so it is never the name of a property that the empty object inherits, and
  \<open>!acc[attester]\<close> holds exactly when the key is absent.
\<close>

type_synonym user_votes = "(string \<times> attestation) list"

definition userVotes_step :: "user_votes \<Rightarrow> attestation \<Rightarrow> user_votes" where
  "userVotes_step acc a =
     (let k = toLowerCase (attester a) in
      case map_of acc k of
        None \<Rightarrow> AList.update k a acc
      | Some held \<Rightarrow>
          if attestTimestamp a > attestTimestamp held then AList.update k a acc else acc)"

definition userVotes :: "attestation list \<Rightarrow> user_votes" where
  "userVotes voteAttestations = foldl userVotes_step [] voteAttestations"

record vote_entry =
  upvotes :: nat
  downvotes :: nat
  userVote :: "int option"

text \<open>
  The body of the \<open>forEach\<close> over \<open>Object.values(userVotes)\<close>. The optional call
  \<open>ethAddress?.toLowerCase()\<close> is \<open>undefined\<close> for an absent address, which is equal to no
  string.
\<close>

definition tally_step :: "string option \<Rightarrow> vote_entry \<Rightarrow> attestation \<Rightarrow> vote_entry" where
  "tally_step ethAddress e a =
     (let voteValue = vote (decodedData a);
          e1 = (if voteValue = 1 then e\<lparr>upvotes := upvotes e + 1\<rparr>
                else if voteValue = - 1 then e\<lparr>downvotes := downvotes e + 1\<rparr>
                else e)
      in if Some (toLowerCase (attester a)) = map_option toLowerCase ethAddress
         then e1\<lparr>userVote := Some voteValue\<rparr> else e1)"

definition tally :: "string option \<Rightarrow> attestation list \<Rightarrow> vote_entry" where
  "tally ethAddress voteAttestations =
     foldl (tally_step ethAddress) \<lparr>upvotes = 0, downvotes = 0, userVote = None\<rparr>
       (map snd (userVotes voteAttestations))"

text \<open>
  The record of a signer that the claims call its latest: the first record in input order
  among those of the signer (compared lower-cased) whose timestamp no other record of the
  signer exceeds.
\<close>

definition signer_key :: "attestation \<Rightarrow> string" where
  "signer_key a = toLowerCase (attester a)"

definition is_latest :: "attestation list \<Rightarrow> string \<Rightarrow> attestation \<Rightarrow> bool" where
  "is_latest R k b \<longleftrightarrow>
     signer_key b = k \<and> (\<forall>c \<in> set R. signer_key c = k \<longrightarrow> attestTimestamp c \<le> attestTimestamp b)"

definition latest_of :: "attestation list \<Rightarrow> string \<Rightarrow> attestation option" where
  "latest_of R k = List.find (is_latest R k) R"

section \<open>The attestation service and the observable effects\<close>

text \<open>
  The hook \<open>useAttestations\<close> is not among the sources, so its three functions are
  parameters of the model. Each call reads the state \<open>'w\<close> of the outside world and
  returns either the message of the error its promise rejects with (\<open>Inl\<close>) or its value
  (\<open>Inr\<close>), together with the next state of the world: a later call may answer
  differently.
\<close>

datatype payload = SafetyRating string bool | CommentVote string int

record 'w attestation_service =
  getAttestations :: "string \<Rightarrow> string \<Rightarrow> 'w \<Rightarrow> (string + attestation list) \<times> 'w"
  getLatestAttestationForUser ::
    "string \<Rightarrow> string \<Rightarrow> string \<Rightarrow> 'w \<Rightarrow> (string + attestation option) \<times> 'w"
  createAttestation :: "string \<Rightarrow> string \<Rightarrow> payload \<Rightarrow> 'w \<Rightarrow> (string + unit) \<times> 'w"

datatype io_call =
  GetAttestations string string
| GetLatestAttestationForUser string string string
| CreateAttestation string string payload

datatype console_line = ConsoleLog string | ConsoleError string string

datatype toast_status = StatusSuccess | StatusError

record toast =
  title :: string
  description :: string
  status :: toast_status
  duration :: nat
  isClosable :: bool

text \<open>
  Everything the code does outside its own React state: the world behind the service, the
  calls made to the service in order, the console and the toasts shown.
\<close>

record 'w effects =
  world :: 'w
  io :: "io_call list"
  console :: "console_line list"
  toasts :: "toast list"

definition await_getAttestations ::
  "'w attestation_service \<Rightarrow> string \<Rightarrow> string \<Rightarrow> 'w effects
     \<Rightarrow> (string + attestation list) \<times> 'w effects" where
  "await_getAttestations svc schemaId subject fx =
     (case getAttestations svc schemaId subject (world fx) of
        (r, w) \<Rightarrow> (r, fx\<lparr>world := w, io := io fx @ [GetAttestations schemaId subject]\<rparr>))"

definition await_getLatestAttestationForUser ::
  "'w attestation_service \<Rightarrow> string \<Rightarrow> string \<Rightarrow> string \<Rightarrow> 'w effects
     \<Rightarrow> (string + attestation option) \<times> 'w effects" where
  "await_getLatestAttestationForUser svc schemaId subject user fx =
     (case getLatestAttestationForUser svc schemaId subject user (world fx) of
        (r, w) \<Rightarrow>
          (r, fx\<lparr>world := w, io := io fx @ [GetLatestAttestationForUser schemaId subject user]\<rparr>))"

definition await_createAttestation ::
  "'w attestation_service \<Rightarrow> string \<Rightarrow> string \<Rightarrow> payload \<Rightarrow> 'w effects
     \<Rightarrow> (string + unit) \<times> 'w effects" where
  "await_createAttestation svc schemaId subject data fx =
     (case createAttestation svc schemaId subject data (world fx) of
        (r, w) \<Rightarrow> (r, fx\<lparr>world := w, io := io fx @ [CreateAttestation schemaId subject data]\<rparr>))"

definition error_toast :: "string \<Rightarrow> toast" where
  "error_toast d =
     \<lparr>title = ''Error'', description = d, status = StatusError, duration = 3000,
      isClosable = True\<rparr>"

definition success_toast :: "string \<Rightarrow> toast" where
  "success_toast d =
     \<lparr>title = ''Success'', description = d, status = StatusSuccess, duration = 3000,
      isClosable = True\<rparr>"

section \<open>useCommentVotes: the hook\<close>

record votes_state =
  votesLoading :: bool
  votesError :: "string option"

type_synonym vote_map = "(string \<times> vote_entry) list"

text \<open>The loop over \<open>commentIds\<close>; a rejected fetch leaves the loop for the \<open>catch\<close>.\<close>

fun votes_loop ::
  "'w attestation_service \<Rightarrow> string \<Rightarrow> string option \<Rightarrow> string list \<Rightarrow> vote_map
     \<Rightarrow> 'w effects \<Rightarrow> (string + vote_map) \<times> 'w effects" where
  "votes_loop svc schemaId ethAddress [] voteMap fx = (Inr voteMap, fx)"
| "votes_loop svc schemaId ethAddress (commentId # rest) voteMap fx =
     (case await_getAttestations svc schemaId commentId fx of
        (Inl err, fx1) \<Rightarrow> (Inl err, fx1)
      | (Inr voteAttestations, fx1) \<Rightarrow>
          votes_loop svc schemaId ethAddress rest
            (AList.update commentId (tally ethAddress voteAttestations) voteMap) fx1)"

definition getVotesForComments ::
  "'w attestation_service \<Rightarrow> string option \<Rightarrow> string option \<Rightarrow> string list
     \<Rightarrow> votes_state \<times> 'w effects \<Rightarrow> vote_map \<times> votes_state \<times> 'w effects" where
  "getVotesForComments svc VOTE_SCHEMA_ID ethAddress commentIds = (\<lambda>(st, fx).
     if \<not> truthy VOTE_SCHEMA_ID
     then ([], st, fx\<lparr>console := console fx @ [ConsoleLog ''VOTE_SCHEMA_ID is not defined'']\<rparr>)
     else
       (case votes_loop svc (the VOTE_SCHEMA_ID) ethAddress commentIds []
               fx of
          (Inr voteMap, fx1) \<Rightarrow>
            (voteMap, st\<lparr>votesLoading := False, votesError := None\<rparr>, fx1)
        | (Inl err, fx1) \<Rightarrow>
            ([], st\<lparr>votesLoading := False, votesError := Some ''Failed to fetch votes''\<rparr>,
             fx1\<lparr>console := console fx1 @ [ConsoleError ''Error fetching votes:'' err]\<rparr>)))"

text \<open>
  The promise of \<open>voteOnComment\<close>: \<open>Inl\<close> would be a rejection with the error's message,
  \<open>Inr ()\<close> is the normal return of no value.
\<close>

definition voteOnComment ::
  "'w attestation_service \<Rightarrow> string option \<Rightarrow> string option \<Rightarrow> string \<Rightarrow> bool
     \<Rightarrow> 'w effects \<Rightarrow> (string + unit) \<times> 'w effects" where
  "voteOnComment svc VOTE_SCHEMA_ID ethAddress commentId isUpvote fx =
     (if \<not> truthy VOTE_SCHEMA_ID \<or> commentId = [] \<or> \<not> truthy ethAddress
      then (Inr (), fx\<lparr>toasts := toasts fx @ [error_toast ''Cannot vote: missing data'']\<rparr>)
      else
        (case await_createAttestation svc (the VOTE_SCHEMA_ID) commentId
                (CommentVote commentId (if isUpvote then 1 else - 1)) fx of
           (Inr result, fx1) \<Rightarrow>
             (Inr (), fx1\<lparr>toasts := toasts fx1 @ [success_toast ''Vote recorded successfully!'']\<rparr>)
         | (Inl err, fx1) \<Rightarrow>
             (Inr (),
              fx1\<lparr>console := console fx1 @ [ConsoleError ''Error voting on comment:'' err],
                  toasts := toasts fx1 @ [error_toast (''Failed to vote: '' @ err)]\<rparr>)))"

section \<open>SiteRatingsProvider\<close>

record site_ratings =
  safeCount :: nat
  unsafeCount :: nat
  totalRatings :: nat

record site_state =
  currentUrl :: string
  isValidUrl :: bool
  siteRatings :: "site_ratings option"
  userRating :: "bool option"
  loading :: bool

text \<open>The values the \<open>useState\<close> calls start from.\<close>

definition initial_site_state :: site_state where
  "initial_site_state =
     \<lparr>currentUrl = [], isValidUrl = False, siteRatings = None, userRating = None,
      loading = True\<rparr>"

record user_data =
  email :: "string option"

text \<open>
  \<open>new Set(xs)\<close> keeps the first occurrence of every element, compared as it is, in
  input order.
\<close>

definition new_Set :: "'a list \<Rightarrow> 'a list" where
  "new_Set xs = foldl (\<lambda>s x. if x \<in> set s then s else s @ [x]) [] xs"

text \<open>The loop over \<open>uniqueUsers\<close>, one lookup for each of them.\<close>

fun count_users ::
  "'w attestation_service \<Rightarrow> string \<Rightarrow> string \<Rightarrow> string list \<Rightarrow> nat \<times> nat
     \<Rightarrow> 'w effects \<Rightarrow> (string + nat \<times> nat) \<times> 'w effects" where
  "count_users svc schemaId subject [] (safe, unsafe) fx = (Inr (safe, unsafe), fx)"
| "count_users svc schemaId subject (user # rest) (safe, unsafe) fx =
     (case await_getLatestAttestationForUser svc schemaId subject user fx of
        (Inl err, fx1) \<Rightarrow> (Inl err, fx1)
      | (Inr None, fx1) \<Rightarrow> count_users svc schemaId subject rest (safe, unsafe) fx1
      | (Inr (Some latestAttestation), fx1) \<Rightarrow>
          if isSafe (decodedData latestAttestation)
          then count_users svc schemaId subject rest (safe + 1, unsafe) fx1
          else count_users svc schemaId subject rest (safe, unsafe + 1) fx1)"

text \<open>
  The first part of the \<open>try\<close> block of \<open>loadSiteRatings\<close>, up to the tally that
  \<open>setSiteRatings\<close> is about to publish: the fetch of the records of the site and the loop
  over their signers. \<open>Inl\<close> is the error that reaches the \<open>catch\<close>.
\<close>

definition fetch_tally ::
  "'w attestation_service \<Rightarrow> string \<Rightarrow> string \<Rightarrow> 'w effects
     \<Rightarrow> (string + site_ratings) \<times> 'w effects" where
  "fetch_tally svc schemaId subject fx =
     (case await_getAttestations svc schemaId subject fx of
        (Inl err, fx1) \<Rightarrow> (Inl err, fx1)
      | (Inr attestations, fx1) \<Rightarrow>
          (case count_users svc schemaId subject (new_Set (map signer attestations)) (0, 0) fx1 of
             (Inl err, fx2) \<Rightarrow> (Inl err, fx2)
           | (Inr (safe, unsafe), fx2) \<Rightarrow>
               (Inr \<lparr>safeCount = safe, unsafeCount = unsafe, totalRatings = safe + unsafe\<rparr>,
                fx2)))"

text \<open>
  The whole \<open>try\<close> block: the tally is published, then the rating of the current user is
  looked up if there is a current user. The state is returned as the block left it.
\<close>

definition loadSiteRatings_try ::
  "'w attestation_service \<Rightarrow> string \<Rightarrow> string option \<Rightarrow> string
     \<Rightarrow> site_state \<times> 'w effects \<Rightarrow> (string + unit) \<times> site_state \<times> 'w effects" where
  "loadSiteRatings_try svc schemaId ethAddress url = (\<lambda>(st, fx).
     case fetch_tally svc schemaId (toLowerCase url) fx of
       (Inl err, fx2) \<Rightarrow> (Inl err, st, fx2)
     | (Inr ratings, fx2) \<Rightarrow>
         (let st2 = st\<lparr>siteRatings := Some ratings\<rparr>
          in if truthy ethAddress
             then
               (case await_getLatestAttestationForUser svc schemaId (toLowerCase url)
                       (the ethAddress) fx2 of
                  (Inl err, fx3) \<Rightarrow> (Inl err, st2, fx3)
                | (Inr (Some userAttestation), fx3) \<Rightarrow>
                    (Inr (), st2\<lparr>userRating := Some (isSafe (decodedData userAttestation))\<rparr>,
                     fx3)
                | (Inr None, fx3) \<Rightarrow> (Inr (), st2\<lparr>userRating := None\<rparr>, fx3))
             else (Inr (), st2, fx2)))"

definition loadSiteRatings ::
  "'w attestation_service \<Rightarrow> string option \<Rightarrow> string option \<Rightarrow> string
     \<Rightarrow> site_state \<times> 'w effects \<Rightarrow> site_state \<times> 'w effects" where
  "loadSiteRatings svc SAFETY_RATING_SCHEMA_ID ethAddress url = (\<lambda>(st, fx).
     if \<not> truthy SAFETY_RATING_SCHEMA_ID \<or> url = [] then (st, fx)
     else
       (case loadSiteRatings_try svc (the SAFETY_RATING_SCHEMA_ID) ethAddress url
               (st\<lparr>loading := True\<rparr>, fx) of
          (Inr u, st1, fx1) \<Rightarrow> (st1\<lparr>loading := False\<rparr>, fx1)
        | (Inl err, st1, fx1) \<Rightarrow>
            (st1\<lparr>loading := False\<rparr>,
             fx1\<lparr>console := console fx1 @ [ConsoleError ''Error loading site ratings:'' err]\<rparr>)))"

text \<open>
  The promise of \<open>rateSite\<close>: \<open>Inl\<close> is the error thrown to the caller. The call
  \<open>userData?.email\<close> is absent when \<open>userData\<close> is.
\<close>

definition rateSite ::
  "'w attestation_service \<Rightarrow> string option \<Rightarrow> string option \<Rightarrow> user_data option \<Rightarrow> bool
     \<Rightarrow> site_state \<times> 'w effects \<Rightarrow> (string + unit) \<times> site_state \<times> 'w effects" where
  "rateSite svc SAFETY_RATING_SCHEMA_ID ethAddress userData isSafeArg = (\<lambda>(st, fx).
     if \<not> truthy SAFETY_RATING_SCHEMA_ID \<or> currentUrl st = [] \<or> \<not> truthy ethAddress
        \<or> \<not> truthy (Option.bind userData email)
     then (Inl ''Missing required information to rate site'', st, fx)
     else
       (case await_createAttestation svc (the SAFETY_RATING_SCHEMA_ID) (currentUrl st)
               (SafetyRating (currentUrl st) isSafeArg) fx of
          (Inl err, fx1) \<Rightarrow>
            (Inl err, st\<lparr>loading := False\<rparr>,
             fx1\<lparr>toasts := toasts fx1 @ [error_toast (''Failed to rate site: '' @ err)]\<rparr>)
        | (Inr u, fx1) \<Rightarrow>
            (case loadSiteRatings svc SAFETY_RATING_SCHEMA_ID ethAddress (currentUrl st)
                    (st\<lparr>loading := True\<rparr>, fx1) of
               (st2, fx2) \<Rightarrow>
                 (Inr (), st2\<lparr>userRating := Some isSafeArg, loading := False\<rparr>,
                  fx2\<lparr>toasts := toasts fx2 @
                     [success_toast (''Site rated as '' @ (if isSafeArg then ''safe'' else ''unsafe'')
                        @ '' successfully!'')]\<rparr>))))"

section \<open>Concrete inputs\<close>

text \<open>
  Modelled from the spec: the attestation service behind \<open>useAttestations\<close>, which is not
  among the sources. Section 6 of the specification gives it three operations: the list of
  all records of a subject, the latest record of one signer (signers compared
  case-insensitively, section 3) and the submission of a record. This service holds a
  fixed list of records, which it returns for every schema and subject, and rejects
  exactly the calls that \<open>rejects\<close> names. It is used for concrete inputs only; the
  theorems about all services do not depend on it.
\<close>

definition memory_service :: "attestation list \<Rightarrow> (io_call \<Rightarrow> bool) \<Rightarrow> unit attestation_service" where
  "memory_service records rejects =
     \<lparr>getAttestations = (\<lambda>schemaId subject w.
        (if rejects (GetAttestations schemaId subject) then Inl ''service unavailable''
         else Inr records, w)),
      getLatestAttestationForUser = (\<lambda>schemaId subject user w.
        (if rejects (GetLatestAttestationForUser schemaId subject user)
         then Inl ''service unavailable''
         else Inr (latest_of records (toLowerCase user)), w)),
      createAttestation = (\<lambda>schemaId subject data w.
        (if rejects (CreateAttestation schemaId subject data) then Inl ''service unavailable''
         else Inr (), w))\<rparr>"

definition no_effects :: "unit effects" where
  "no_effects = \<lparr>world = (), io = [], console = [], toasts = []\<rparr>"

text \<open>An attestation whose \<open>signer\<close> and \<open>attester\<close> are the same address.\<close>

definition attestation_of :: "string \<Rightarrow> int \<Rightarrow> bool \<Rightarrow> int \<Rightarrow> attestation" where
  "attestation_of who t safe v =
     \<lparr>signer = who, attester = who, attestTimestamp = t,
      decodedData = \<lparr>isSafe = safe, vote = v\<rparr>\<rparr>"

text \<open>
  Four votes of two signers: the first signer votes three times under differently cased
  spellings of one address, the last two votes at the same time.
\<close>

definition example_votes :: "attestation list" where
  "example_votes =
     [attestation_of ''0xABC'' 10 True 1, attestation_of ''0xdef'' 15 True 1,
      attestation_of ''0xabc'' 20 True (- 1), attestation_of ''0xAbC'' 20 True 1]"

text \<open>
  Two safety ratings whose signers differ only in letter case, and a state of the provider
  in which a tally and the rating of a signed-in user have been published.
\<close>

definition example_ratings :: "attestation list" where
  "example_ratings = [attestation_of ''0xABC'' 10 True 0, attestation_of ''0xabc'' 20 True 0]"

definition published_state :: site_state where
  "published_state =
     \<lparr>currentUrl = ''example.com'', isValidUrl = True,
      siteRatings = Some \<lparr>safeCount = 2, unsafeCount = 1, totalRatings = 3\<rparr>,
      userRating = Some True, loading = False\<rparr>"

definition no_call :: "io_call \<Rightarrow> bool" where
  "no_call c = False"

text \<open>Which calls a service rejects: writes only, or the lookups of one user.\<close>

definition rejects_writes :: "io_call \<Rightarrow> bool" where
  "rejects_writes c = (case c of CreateAttestation s k d \<Rightarrow> True | _ \<Rightarrow> False)"


section \<open>Notions used in the statements\<close>

text \<open>A vote that the tally counts: the code counts \<open>1\<close> and \<open>-1\<close> and skips any other value.\<close>

definition counted :: "attestation \<Rightarrow> bool" where
  "counted r \<longleftrightarrow> vote (decodedData r) = 1 \<or> vote (decodedData r) = - 1"

text \<open>
  The service finds a record for each of the given users, whatever the state of the world:
  the lookups of the loop over \<open>uniqueUsers\<close> all succeed with a record.
\<close>

definition always_found :: "'w attestation_service \<Rightarrow> string \<Rightarrow> string \<Rightarrow> string set \<Rightarrow> bool" where
  "always_found svc sid subj users \<longleftrightarrow>
     (\<forall>u \<in> users. \<forall>w.
        case fst (getLatestAttestationForUser svc sid subj u w) of
          Inr (Some la) \<Rightarrow> True
        | _ \<Rightarrow> False)"

text \<open>
  The service answers the fetch of the records of every subject, in every state of the
  world, with the list \<open>records subject\<close>.
\<close>

definition serves :: "'w attestation_service \<Rightarrow> string \<Rightarrow> (string \<Rightarrow> attestation list) \<Rightarrow> bool" where
  "serves svc sid records \<longleftrightarrow>
     (\<forall>subject w. fst (getAttestations svc sid subject w) = Inr (records subject))"

section \<open>Resolution keeps the latest record of every signer\<close>

lemma userVotes_snoc: "userVotes (R @ [x]) = userVotes_step (userVotes R) x"
  by (simp add: userVotes_def)

lemma latest_of_Some_iff:
  "latest_of R k = Some r \<longleftrightarrow>
     (\<exists>i<length R. R ! i = r \<and> signer_key r = k
        \<and> (\<forall>c \<in> set R. signer_key c = k \<longrightarrow> attestTimestamp c \<le> attestTimestamp r)
        \<and> (\<forall>j<i. signer_key (R ! j) = k \<longrightarrow> attestTimestamp (R ! j) < attestTimestamp r))"
  unfolding latest_of_def find_Some_iff is_latest_def
  by force

lemma latest_of_None_iff: "latest_of R k = None \<longleftrightarrow> k \<notin> signer_key ` set R"
proof
  assume "latest_of R k = None"
  then have no: "\<And>b. b \<in> set R \<Longrightarrow> \<not> is_latest R k b"
    by (simp add: latest_of_def find_None_iff)
  show "k \<notin> signer_key ` set R"
  proof
    assume "k \<in> signer_key ` set R"
    define S where "S = {c \<in> set R. signer_key c = k}"
    have fin: "finite S" and ne: "S \<noteq> {}"
      using \<open>k \<in> signer_key ` set R\<close> by (auto simp: S_def)
    obtain b where b: "b \<in> S" "attestTimestamp b = Max (attestTimestamp ` S)"
      using fin ne by (metis (no_types, lifting) Max_in finite_imageI imageE image_is_empty)
    have "is_latest R k b"
      using b fin by (auto simp: is_latest_def S_def)
    with no b show False by (auto simp: S_def)
  qed
next
  assume "k \<notin> signer_key ` set R"
  then show "latest_of R k = None"
    by (auto simp: latest_of_def find_None_iff is_latest_def)
qed

lemma find_append_case:
  "List.find P (xs @ ys) = (case List.find P xs of None \<Rightarrow> List.find P ys | Some a \<Rightarrow> Some a)"
  by (induction xs) auto

lemma is_latest_snoc:
  "is_latest (R @ [x]) k b \<longleftrightarrow>
     is_latest R k b \<and> (signer_key x = k \<longrightarrow> attestTimestamp x \<le> attestTimestamp b)"
  by (auto simp: is_latest_def)

lemma latest_of_SomeD:
  assumes "latest_of R k = Some h"
  shows "h \<in> set R" and "is_latest R k h"
  using assms by (auto simp: latest_of_def find_Some_iff)

lemma latest_of_snoc_other:
  assumes "signer_key x \<noteq> k"
  shows "latest_of (R @ [x]) k = latest_of R k"
proof -
  have "List.find (is_latest (R @ [x]) k) R = List.find (is_latest R k) R"
    using assms by (intro find_cong) (auto simp: is_latest_snoc)
  moreover have "\<not> is_latest (R @ [x]) k x"
    using assms by (simp add: is_latest_def)
  ultimately show ?thesis
    by (simp add: latest_of_def find_append_case split: option.splits)
qed

lemma latest_of_snoc_first:
  assumes "signer_key x = k" and "latest_of R k = None"
  shows "latest_of (R @ [x]) k = Some x"
proof -
  have none: "\<And>b. b \<in> set R \<Longrightarrow> signer_key b \<noteq> k"
    using assms(2) by (auto simp: latest_of_None_iff)
  then have "List.find (is_latest (R @ [x]) k) R = None"
    by (auto simp: find_None_iff is_latest_def)
  moreover have "is_latest (R @ [x]) k x"
    using assms(1) none by (auto simp: is_latest_def)
  ultimately show ?thesis
    by (simp add: latest_of_def find_append_case)
qed

lemma latest_of_snoc_newer:
  assumes "signer_key x = k" and "latest_of R k = Some h"
    and "attestTimestamp h < attestTimestamp x"
  shows "latest_of (R @ [x]) k = Some x"
proof -
  have h: "is_latest R k h"
    using assms(2) by (rule latest_of_SomeD)
  have "\<And>b. b \<in> set R \<Longrightarrow> \<not> is_latest (R @ [x]) k b"
    using h assms(1,3) by (fastforce simp: is_latest_def)
  then have "List.find (is_latest (R @ [x]) k) R = None"
    by (simp add: find_None_iff)
  moreover have "is_latest (R @ [x]) k x"
    using h assms(1,3) by (fastforce simp: is_latest_def)
  ultimately show ?thesis
    by (simp add: latest_of_def find_append_case)
qed

lemma latest_of_snoc_held:
  assumes "signer_key x = k" and "latest_of R k = Some h"
    and "\<not> attestTimestamp h < attestTimestamp x"
  shows "latest_of (R @ [x]) k = Some h"
proof -
  obtain i where i: "i < length R" "is_latest R k (R ! i)" "h = R ! i"
      "\<forall>j<i. \<not> is_latest R k (R ! j)"
    using assms(2) unfolding latest_of_def find_Some_iff by blast
  have "is_latest (R @ [x]) k (R ! i)"
    using i(2,3) assms(3) by (simp add: is_latest_snoc)
  moreover have "\<forall>j<i. \<not> is_latest (R @ [x]) k (R ! j)"
    using i(4) by (simp add: is_latest_snoc)
  ultimately have "List.find (is_latest (R @ [x]) k) R = Some h"
    unfolding find_Some_iff using i(1,3) by blast
  then show ?thesis
    by (simp add: latest_of_def find_append_case)
qed

lemma latest_of_snoc:
  "latest_of (R @ [x]) k =
     (if signer_key x = k then
        (case latest_of R k of None \<Rightarrow> Some x
         | Some held \<Rightarrow> if attestTimestamp x > attestTimestamp held then Some x else Some held)
      else latest_of R k)"
  by (simp add: latest_of_snoc_other latest_of_snoc_first latest_of_snoc_newer
      latest_of_snoc_held split: option.splits)

lemma map_of_userVotes_step:
  "map_of (userVotes_step acc x) k =
     (if signer_key x = k then
        (case map_of acc k of None \<Rightarrow> Some x
         | Some held \<Rightarrow> if attestTimestamp x > attestTimestamp held then Some x else Some held)
      else map_of acc k)"
  by (auto simp: userVotes_step_def signer_key_def Let_def AList.update_conv' split: option.splits)

lemma map_of_userVotes: "map_of (userVotes R) k = latest_of R k"
proof (induction R rule: rev_induct)
  case Nil
  show ?case by (simp add: userVotes_def latest_of_def)
next
  case (snoc x R)
  show ?case
    by (simp only: userVotes_snoc map_of_userVotes_step latest_of_snoc snoc.IH)
qed

lemma userVotes_step_held:
  "map_of acc (signer_key x) = Some held \<Longrightarrow>
     map_of (userVotes_step acc x) (signer_key x) =
       Some (if attestTimestamp held < attestTimestamp x then x else held)"
  by (simp add: map_of_userVotes_step)

lemma resolved_timestamp_order_free:
  assumes "set R' = set R" "latest_of R k = Some r" "latest_of R' k = Some r'"
  shows "attestTimestamp r' = attestTimestamp r"
proof -
  have "is_latest R k r" "r \<in> set R" using assms(2) by (auto dest: latest_of_SomeD)
  moreover have "is_latest R' k r'" "r' \<in> set R'" using assms(3) by (auto dest: latest_of_SomeD)
  ultimately show ?thesis using assms(1) by (fastforce simp: is_latest_def)
qed

text \<open>
  Claim C1. For every list of vote attestations and every record \<open>a\<close> in it, the resolved
  dictionary holds, under the lower-cased attester of \<open>a\<close>, a record \<open>r\<close> of the list of
  that same signer such that no record of the signer has a greater timestamp, and every
  record of the signer before \<open>r\<close> in the list has a strictly smaller timestamp, so that \<open>r\<close>
  is the first of those with the greatest timestamp. The timestamp of the resolved record
  is the same for every list with the same records, whatever their order. A step of the
  reduction replaces a held record exactly when the new record is strictly newer.
\<close>

theorem latest_per_signer:
  assumes "a \<in> set R"
  shows "(\<exists>r. map_of (userVotes R) (signer_key a) = Some r \<and> r \<in> set R
            \<and> signer_key r = signer_key a
            \<and> (\<forall>c \<in> set R. signer_key c = signer_key a \<longrightarrow> attestTimestamp c \<le> attestTimestamp r)
            \<and> (\<exists>i<length R. R ! i = r
                 \<and> (\<forall>j<i. signer_key (R ! j) = signer_key a
                        \<longrightarrow> attestTimestamp (R ! j) < attestTimestamp r))
            \<and> (\<forall>R'. set R' = set R \<longrightarrow>
                  map_option attestTimestamp (map_of (userVotes R') (signer_key a))
                    = Some (attestTimestamp r)))
         \<and> (\<forall>acc x held. map_of acc (signer_key x) = Some held \<longrightarrow>
               map_of (userVotes_step acc x) (signer_key x)
                 = Some (if attestTimestamp held < attestTimestamp x then x else held))"
proof -
  let ?k = "signer_key a"
  from assms have "latest_of R ?k \<noteq> None"
    by (simp add: latest_of_None_iff)
  then obtain r where r: "latest_of R ?k = Some r" by blast
  have 1: "map_of (userVotes R) ?k = Some r"
    using r by (simp add: map_of_userVotes)
  have 2: "r \<in> set R" "signer_key r = ?k"
    "\<forall>c \<in> set R. signer_key c = ?k \<longrightarrow> attestTimestamp c \<le> attestTimestamp r"
    using latest_of_SomeD[OF r] by (auto simp: is_latest_def)
  have 3: "\<exists>i<length R. R ! i = r
      \<and> (\<forall>j<i. signer_key (R ! j) = ?k \<longrightarrow> attestTimestamp (R ! j) < attestTimestamp r)"
    using r unfolding latest_of_Some_iff by blast
  have 4: "map_option attestTimestamp (map_of (userVotes R') ?k) = Some (attestTimestamp r)"
    if "set R' = set R" for R'
  proof -
    from assms that have "latest_of R' ?k \<noteq> None"
      by (simp add: latest_of_None_iff)
    then obtain r' where r': "latest_of R' ?k = Some r'" by blast
    then show ?thesis
      using resolved_timestamp_order_free[OF that r r'] by (simp add: map_of_userVotes)
  qed
  have 5: "\<forall>acc x held. map_of acc (signer_key x) = Some held \<longrightarrow>
               map_of (userVotes_step acc x) (signer_key x)
                 = Some (if attestTimestamp held < attestTimestamp x then x else held)"
    by (simp add: userVotes_step_held)
  from 1 2 3 4 5 show ?thesis by blast
qed

theorem latest_per_signer_witness:
  "attestation_of ''0xABC'' 10 True 1 \<in> set example_votes
   \<and> (\<exists>r. map_of (userVotes example_votes) (signer_key (attestation_of ''0xABC'' 10 True 1)) = Some r
          \<and> r \<in> set example_votes
          \<and> (\<forall>c \<in> set example_votes.
                signer_key c = signer_key (attestation_of ''0xABC'' 10 True 1)
                  \<longrightarrow> attestTimestamp c \<le> attestTimestamp r))"
proof -
  have h: "attestation_of ''0xABC'' 10 True 1 \<in> set example_votes"
    by (simp add: example_votes_def)
  show ?thesis
    using h latest_per_signer [OF h] by blast
qed

section \<open>The tally of the votes on a comment\<close>

lemma distinct_userVotes_step:
  "distinct (map fst acc) \<Longrightarrow> distinct (map fst (userVotes_step acc x))"
  by (simp add: userVotes_step_def Let_def AList.distinct_update split: option.splits)

lemma distinct_userVotes: "distinct (map fst (userVotes R))"
  by (induction R rule: rev_induct) (simp_all add: userVotes_def distinct_userVotes_step)

lemma userVotes_mem_iff: "(k, r) \<in> set (userVotes R) \<longleftrightarrow> latest_of R k = Some r"
  using distinct_userVotes [of R] by (simp add: map_of_userVotes [symmetric])

lemma userVotes_keys: "fst ` set (userVotes R) = signer_key ` set R"
proof -
  have "fst ` set (userVotes R) = dom (map_of (userVotes R))"
    by (simp add: dom_map_of_conv_image_fst)
  also have "\<dots> = {k. latest_of R k \<noteq> None}"
    by (auto simp: map_of_userVotes)
  also have "\<dots> = signer_key ` set R"
    by (auto simp: latest_of_None_iff)
  finally show ?thesis .
qed

lemma length_userVotes: "length (userVotes R) = card (signer_key ` set R)"
proof -
  have "length (userVotes R) = length (map fst (userVotes R))" by simp
  also have "\<dots> = card (set (map fst (userVotes R)))"
    using distinct_userVotes [of R] by (simp only: distinct_card)
  also have "\<dots> = card (signer_key ` set R)"
    by (simp add: userVotes_keys)
  finally show ?thesis .
qed

lemma upvotes_foldl:
  "upvotes (foldl (tally_step eth) e vs) =
     upvotes e + length (filter (\<lambda>a. vote (decodedData a) = 1) vs)"
  by (induction vs arbitrary: e) (simp_all add: tally_step_def Let_def)

lemma downvotes_foldl:
  "downvotes (foldl (tally_step eth) e vs) =
     downvotes e + length (filter (\<lambda>a. vote (decodedData a) = - 1) vs)"
  by (induction vs arbitrary: e) (simp_all add: tally_step_def Let_def)

lemma userVote_foldl_None:
  "userVote (foldl (tally_step None) e vs) = userVote e"
  by (induction vs arbitrary: e) (simp_all add: tally_step_def Let_def)

lemma userVote_tally_step:
  "userVote (tally_step (Some addr) e r) =
     (if signer_key r = toLowerCase addr then Some (vote (decodedData r)) else userVote e)"
  by (simp add: tally_step_def Let_def signer_key_def)

lemma latest_of_key:
  assumes "latest_of R k = Some r"
  shows "signer_key r = k"
  using latest_of_SomeD(2) [OF assms] by (simp add: is_latest_def)

lemma length_filter_votes:
  "length (filter (\<lambda>a. vote (decodedData a) = 1) vs)
     + length (filter (\<lambda>a. vote (decodedData a) = - 1) vs)
   = length (filter (\<lambda>a. vote (decodedData a) = 1 \<or> vote (decodedData a) = - 1) vs)"
  by (induction vs) auto

lemma userVote_foldl_Some:
  assumes "distinct (map fst al)" and "\<forall>(k, r) \<in> set al. signer_key r = k"
  shows "userVote (foldl (tally_step (Some addr)) e (map snd al)) =
     (case map_of al (toLowerCase addr) of
        None \<Rightarrow> userVote e
      | Some r \<Rightarrow> Some (vote (decodedData r)))"
  using assms
proof (induction al arbitrary: e)
  case Nil
  show ?case by simp
next
  case (Cons p al)
  obtain k r where p: "p = (k, r)" by (cases p)
  from Cons.prems have d: "distinct (map fst al)" and kr: "signer_key r = k"
    and rest: "\<forall>(k, r) \<in> set al. signer_key r = k" and fresh: "k \<notin> fst ` set al"
    by (auto simp: p)
  note IH = Cons.IH [OF d rest]
  show ?case
  proof (cases "k = toLowerCase addr")
    case True
    then have "map_of al (toLowerCase addr) = None"
      using fresh by (simp add: map_of_eq_None_iff)
    then show ?thesis
      using True kr by (simp add: p IH userVote_tally_step)
  next
    case False
    then show ?thesis
      using kr by (simp add: p IH userVote_tally_step split: option.splits)
  qed
qed

lemma userVote_tally:
  "userVote (tally ethAddress R) =
     (case ethAddress of
        None \<Rightarrow> None
      | Some addr \<Rightarrow> map_option (\<lambda>r. vote (decodedData r)) (latest_of R (toLowerCase addr)))"
proof (cases ethAddress)
  case None
  then show ?thesis by (simp add: tally_def userVote_foldl_None)
next
  case (Some addr)
  have "\<forall>(k, r) \<in> set (userVotes R). signer_key r = k"
    by (auto simp: userVotes_mem_iff latest_of_key)
  then show ?thesis
    using Some userVote_foldl_Some [OF distinct_userVotes, of R addr]
    by (simp add: tally_def map_of_userVotes split: option.splits)
qed

lemma length_filter_values:
  assumes "distinct (map fst al)"
  shows "length (filter P (map snd al)) = card {k. \<exists>r. map_of al k = Some r \<and> P r}"
proof -
  have "length (filter P (map snd al)) = length (map fst (filter (P \<circ> snd) al))"
    by (simp add: filter_map)
  also have "\<dots> = card (set (map fst (filter (P \<circ> snd) al)))"
    using assms by (simp only: distinct_card distinct_map_filter)
  also have "set (map fst (filter (P \<circ> snd) al)) = {k. \<exists>r. map_of al k = Some r \<and> P r}"
    using assms by (auto simp: image_iff)
  finally show ?thesis .
qed

lemma votes_total:
  "upvotes (tally eth R) + downvotes (tally eth R) =
     card {k. \<exists>r. latest_of R k = Some r \<and> counted r}"
proof -
  let ?vs = "map snd (userVotes R)"
  have "length (filter (\<lambda>a. vote (decodedData a) = 1) ?vs)
        + length (filter (\<lambda>a. vote (decodedData a) = - 1) ?vs) = length (filter counted ?vs)"
    using length_filter_votes [of ?vs] by (simp add: counted_def [abs_def])
  then show ?thesis
    using length_filter_values [OF distinct_userVotes, of counted R]
    by (simp add: tally_def upvotes_foldl downvotes_foldl map_of_userVotes)
qed

lemma votes_total_all_counted:
  assumes "\<forall>a \<in> set R. counted a"
  shows "upvotes (tally eth R) + downvotes (tally eth R) = card (signer_key ` set R)"
proof -
  have "{k. \<exists>r. latest_of R k = Some r \<and> counted r} = {k. latest_of R k \<noteq> None}"
    using assms by (auto dest: latest_of_SomeD(1))
  also have "\<dots> = signer_key ` set R"
    by (auto simp: latest_of_None_iff)
  finally show ?thesis by (simp add: votes_total)
qed

section \<open>Loading the ratings of a site\<close>

lemma new_Set_foldl:
  "distinct s \<Longrightarrow>
     distinct (foldl (\<lambda>s x. if x \<in> set s then s else s @ [x]) s xs)
     \<and> set (foldl (\<lambda>s x. if x \<in> set s then s else s @ [x]) s xs) = set s \<union> set xs"
  by (induction xs arbitrary: s) auto

lemma distinct_new_Set: "distinct (new_Set xs)"
  using new_Set_foldl [of "[]" xs] by (simp add: new_Set_def)

lemma set_new_Set: "set (new_Set xs) = set xs"
  using new_Set_foldl [of "[]" xs] by (simp add: new_Set_def)

lemma length_new_Set: "length (new_Set xs) = card (set xs)"
  using distinct_card [OF distinct_new_Set, of xs] by (simp add: set_new_Set)

lemma count_users_sum:
  "count_users svc sid subj users (s0, u0) fx = (Inr (s, u), fx') \<Longrightarrow>
     s + u \<le> s0 + u0 + length users"
proof (induction users arbitrary: s0 u0 fx)
  case Nil
  then show ?case by simp
next
  case (Cons user rest)
  then show ?case
    by (fastforce split: prod.splits sum.splits option.splits if_splits)
qed

lemma count_users_found:
  assumes "always_found svc sid subj (set users)"
  shows "\<exists>s u fx'. count_users svc sid subj users (s0, u0) fx = (Inr (s, u), fx')
           \<and> s + u = s0 + u0 + length users"
  using assms
proof (induction users arbitrary: s0 u0 fx)
  case Nil
  show ?case by simp
next
  case (Cons user rest)
  from Cons.prems have
    "case fst (getLatestAttestationForUser svc sid subj user (world fx)) of
       Inr (Some la) \<Rightarrow> True
     | _ \<Rightarrow> False"
    by (simp add: always_found_def)
  then obtain la where
    la: "fst (getLatestAttestationForUser svc sid subj user (world fx)) = Inr (Some la)"
    by (auto split: sum.splits option.splits)
  from Cons.prems have rest: "always_found svc sid subj (set rest)"
    by (simp add: always_found_def)
  obtain w where w: "getLatestAttestationForUser svc sid subj user (world fx) = (Inr (Some la), w)"
    using la by (cases "getLatestAttestationForUser svc sid subj user (world fx)") simp
  let ?fx1 = "fx\<lparr>world := w, io := io fx @ [GetLatestAttestationForUser sid subj user]\<rparr>"
  show ?case
  proof (cases "isSafe (decodedData la)")
    case True
    with Cons.IH [OF rest, of "s0 + 1" u0 ?fx1] w show ?thesis
      by (auto simp: await_getLatestAttestationForUser_def)
  next
    case False
    with Cons.IH [OF rest, of s0 "u0 + 1" ?fx1] w show ?thesis
      by (auto simp: await_getLatestAttestationForUser_def)
  qed
qed

lemma fetch_tally_total:
  "fetch_tally svc sid subj fx = (Inr t, fx') \<Longrightarrow> totalRatings t = safeCount t + unsafeCount t"
  by (auto simp: fetch_tally_def split: prod.splits sum.splits)

lemma fetch_tally_found:
  assumes "fst (getAttestations svc sid subj (world fx)) = Inr R"
    and "always_found svc sid subj (signer ` set R)"
  shows "\<exists>t fx'. fetch_tally svc sid subj fx = (Inr t, fx')
           \<and> totalRatings t = card (signer ` set R)"
proof -
  obtain w where w: "getAttestations svc sid subj (world fx) = (Inr R, w)"
    using assms(1) by (cases "getAttestations svc sid subj (world fx)") simp
  let ?fx1 = "fx\<lparr>world := w, io := io fx @ [GetAttestations sid subj]\<rparr>"
  from assms(2) have "always_found svc sid subj (set (new_Set (map signer R)))"
    by (simp add: set_new_Set)
  from count_users_found [OF this, of 0 0 ?fx1]
  obtain s u fx' where
    "count_users svc sid subj (new_Set (map signer R)) (0, 0) ?fx1 = (Inr (s, u), fx')"
    "s + u = length (new_Set (map signer R))"
    by auto
  then show ?thesis
    using w by (simp add: fetch_tally_def await_getAttestations_def length_new_Set)
qed

lemma loadSiteRatings_skip:
  "\<not> truthy schema \<or> url = [] \<Longrightarrow> loadSiteRatings svc schema eth url (st, fx) = (st, fx)"
  by (auto simp: loadSiteRatings_def)

lemma loadSiteRatings_fetch_fails:
  assumes "truthy schema" "url \<noteq> []"
    and "fetch_tally svc (the schema) (toLowerCase url) fx = (Inl err, fx')"
  shows "loadSiteRatings svc schema eth url (st, fx) =
     (st\<lparr>loading := False\<rparr>,
      fx'\<lparr>console := console fx' @ [ConsoleError ''Error loading site ratings:'' err]\<rparr>)"
  using assms by (simp add: loadSiteRatings_def loadSiteRatings_try_def)

lemma loadSiteRatings_anonymous:
  assumes "truthy schema" "url \<noteq> []" "\<not> truthy eth"
    and "fetch_tally svc (the schema) (toLowerCase url) fx = (Inr t, fx')"
  shows "loadSiteRatings svc schema eth url (st, fx) =
     (st\<lparr>siteRatings := Some t, loading := False\<rparr>, fx')"
  using assms by (simp add: loadSiteRatings_def loadSiteRatings_try_def)

lemma loadSiteRatings_own_fails:
  assumes "truthy schema" "url \<noteq> []" "truthy eth"
    and "fetch_tally svc (the schema) (toLowerCase url) fx = (Inr t, fx')"
    and "getLatestAttestationForUser svc (the schema) (toLowerCase url) (the eth) (world fx')
           = (Inl err, w)"
  shows "loadSiteRatings svc schema eth url (st, fx) =
     (st\<lparr>siteRatings := Some t, loading := False\<rparr>,
      fx'\<lparr>world := w,
          io := io fx' @ [GetLatestAttestationForUser (the schema) (toLowerCase url) (the eth)],
          console := console fx' @ [ConsoleError ''Error loading site ratings:'' err]\<rparr>)"
  using assms
  by (simp add: loadSiteRatings_def loadSiteRatings_try_def await_getLatestAttestationForUser_def)

lemma loadSiteRatings_own_found:
  assumes "truthy schema" "url \<noteq> []" "truthy eth"
    and "fetch_tally svc (the schema) (toLowerCase url) fx = (Inr t, fx')"
    and "getLatestAttestationForUser svc (the schema) (toLowerCase url) (the eth) (world fx')
           = (Inr ua, w)"
  shows "loadSiteRatings svc schema eth url (st, fx) =
     (st\<lparr>siteRatings := Some t, userRating := map_option (\<lambda>a. isSafe (decodedData a)) ua,
         loading := False\<rparr>,
      fx'\<lparr>world := w,
          io := io fx' @ [GetLatestAttestationForUser (the schema) (toLowerCase url) (the eth)]\<rparr>)"
  using assms
  by (cases ua)
    (simp_all add: loadSiteRatings_def loadSiteRatings_try_def
      await_getLatestAttestationForUser_def)

lemma loadSiteRatings_published:
  assumes "truthy schema" "url \<noteq> []"
    and "fetch_tally svc (the schema) (toLowerCase url) fx = (Inr t, fx')"
  shows "siteRatings (fst (loadSiteRatings svc schema eth url (st, fx))) = Some t"
proof (cases "truthy eth")
  case False
  then show ?thesis
    using assms by (simp add: loadSiteRatings_anonymous)
next
  case True
  obtain r w where
    r: "getLatestAttestationForUser svc (the schema) (toLowerCase url) (the eth) (world fx')
          = (r, w)"
    by (cases "getLatestAttestationForUser svc (the schema) (toLowerCase url) (the eth) (world fx')")
  show ?thesis
  proof (cases r)
    case (Inl err)
    then show ?thesis
      using assms True r by (simp add: loadSiteRatings_own_fails)
  next
    case (Inr ua)
    then show ?thesis
      using assms True r by (simp add: loadSiteRatings_own_found)
  qed
qed

lemma loadSiteRatings_siteRatings:
  "siteRatings (fst (loadSiteRatings svc schema eth url (st, fx))) = siteRatings st
   \<or> (\<exists>t fx'. fetch_tally svc (the schema) (toLowerCase url) fx = (Inr t, fx')
         \<and> siteRatings (fst (loadSiteRatings svc schema eth url (st, fx))) = Some t)"
proof (cases "\<not> truthy schema \<or> url = []")
  case True
  then show ?thesis by (simp add: loadSiteRatings_skip)
next
  case False
  obtain r fx' where r: "fetch_tally svc (the schema) (toLowerCase url) fx = (r, fx')"
    by (cases "fetch_tally svc (the schema) (toLowerCase url) fx")
  show ?thesis
  proof (cases r)
    case (Inl err)
    then show ?thesis
      using False r by (simp add: loadSiteRatings_fetch_fails)
  next
    case (Inr t)
    then show ?thesis
      using False r by (simp add: loadSiteRatings_published)
  qed
qed

lemma loadSiteRatings_counts_signer_strings:
  assumes "truthy schema" "url \<noteq> []"
    and "fst (getAttestations svc (the schema) (toLowerCase url) (world fx)) = Inr S"
    and "always_found svc (the schema) (toLowerCase url) (signer ` set S)"
  shows "\<exists>t. siteRatings (fst (loadSiteRatings svc schema eth url (st, fx))) = Some t
           \<and> totalRatings t = safeCount t + unsafeCount t
           \<and> totalRatings t = card (signer ` set S)"
proof -
  from fetch_tally_found [OF assms(3,4)] obtain t fx' where
    t: "fetch_tally svc (the schema) (toLowerCase url) fx = (Inr t, fx')"
      "totalRatings t = card (signer ` set S)"
    by blast
  have "siteRatings (fst (loadSiteRatings svc schema eth url (st, fx))) = Some t"
    using assms(1,2) t(1) by (rule loadSiteRatings_published)
  moreover have "totalRatings t = safeCount t + unsafeCount t"
    using t(1) by (rule fetch_tally_total)
  ultimately show ?thesis using t(2) by blast
qed




section \<open>The hook of the comment votes, and submissions\<close>

lemma votes_loop_serves:
  assumes "serves svc sid records"
  shows "\<exists>voteMap' fx'. votes_loop svc sid eth commentIds voteMap fx = (Inr voteMap', fx')
           \<and> (\<forall>c. map_of voteMap' c =
                 (if c \<in> set commentIds then Some (tally eth (records c)) else map_of voteMap c))"
proof (induction commentIds arbitrary: voteMap fx)
  case Nil
  show ?case by simp
next
  case (Cons commentId rest)
  obtain w where w: "getAttestations svc sid commentId (world fx) = (Inr (records commentId), w)"
    using assms unfolding serves_def
    by (metis prod.collapse)
  let ?fx1 = "fx\<lparr>world := w, io := io fx @ [GetAttestations sid commentId]\<rparr>"
  let ?vm1 = "AList.update commentId (tally eth (records commentId)) voteMap"
  from Cons.IH [of ?vm1 ?fx1] obtain voteMap' fx' where
    r: "votes_loop svc sid eth rest ?vm1 ?fx1 = (Inr voteMap', fx')"
    and m: "\<And>c. map_of voteMap' c =
                 (if c \<in> set rest then Some (tally eth (records c)) else map_of ?vm1 c)"
    by blast
  have "votes_loop svc sid eth (commentId # rest) voteMap fx = (Inr voteMap', fx')"
    using w r by (simp add: await_getAttestations_def)
  moreover have "\<forall>c. map_of voteMap' c =
      (if c \<in> set (commentId # rest) then Some (tally eth (records c)) else map_of voteMap c)"
    by (simp add: m AList.update_conv')
  ultimately show ?case by blast
qed


lemma getVotesForComments_skip:
  "\<not> truthy schema \<Longrightarrow>
     getVotesForComments svc schema eth commentIds (st, fx) =
       ([], st, fx\<lparr>console := console fx @ [ConsoleLog ''VOTE_SCHEMA_ID is not defined'']\<rparr>)"
  by (simp add: getVotesForComments_def)


lemma getVotesForComments_serves:
  assumes "truthy schema" and "serves svc (the schema) records" and "c \<in> set commentIds"
  shows "map_of (fst (getVotesForComments svc schema eth commentIds (st, fx))) c
           = Some (tally eth (records c))"
proof -
  from votes_loop_serves [OF assms(2), of eth commentIds "[]" fx]
  obtain voteMap' fx' where
    "votes_loop svc (the schema) eth commentIds [] fx = (Inr voteMap', fx')"
    "\<forall>c. map_of voteMap' c =
        (if c \<in> set commentIds then Some (tally eth (records c)) else map_of [] c)"
    by blast
  then show ?thesis
    using assms(1,3) by (simp add: getVotesForComments_def)
qed

lemma voteOnComment_missing:
  "\<not> truthy schema \<or> commentId = [] \<or> \<not> truthy eth \<Longrightarrow>
     voteOnComment svc schema eth commentId up fx =
       (Inr (), fx\<lparr>toasts := toasts fx @ [error_toast ''Cannot vote: missing data'']\<rparr>)"
  by (auto simp: voteOnComment_def)

lemma voteOnComment_write_fails:
  assumes "truthy schema" "commentId \<noteq> []" "truthy eth"
    and "createAttestation svc (the schema) commentId
           (CommentVote commentId (if up then 1 else - 1)) (world fx) = (Inl err, w)"
  shows "voteOnComment svc schema eth commentId up fx =
     (Inr (),
      fx\<lparr>world := w,
         io := io fx @ [CreateAttestation (the schema) commentId
                          (CommentVote commentId (if up then 1 else - 1))],
         console := console fx @ [ConsoleError ''Error voting on comment:'' err],
         toasts := toasts fx @ [error_toast (''Failed to vote: '' @ err)]\<rparr>)"
  using assms by (simp add: voteOnComment_def await_createAttestation_def)

lemma voteOnComment_resolves: "fst (voteOnComment svc schema eth commentId up fx) = Inr ()"
  by (simp add: voteOnComment_def split: prod.splits sum.splits)

lemma rateSite_missing:
  "\<not> truthy schema \<or> currentUrl st = [] \<or> \<not> truthy eth \<or> \<not> truthy (Option.bind userData email) \<Longrightarrow>
     rateSite svc schema eth userData b (st, fx) =
       (Inl ''Missing required information to rate site'', st, fx)"
  by (auto simp: rateSite_def)

lemma rateSite_write_fails:
  assumes "truthy schema" "currentUrl st \<noteq> []" "truthy eth" "truthy (Option.bind userData email)"
    and "createAttestation svc (the schema) (currentUrl st)
           (SafetyRating (currentUrl st) b) (world fx) = (Inl err, w)"
  shows "rateSite svc schema eth userData b (st, fx) =
     (Inl err, st\<lparr>loading := False\<rparr>,
      fx\<lparr>world := w,
         io := io fx @ [CreateAttestation (the schema) (currentUrl st)
                          (SafetyRating (currentUrl st) b)],
         toasts := toasts fx @ [error_toast (''Failed to rate site: '' @ err)]\<rparr>)"
  using assms by (simp add: rateSite_def await_createAttestation_def)

section \<open>Totals\<close>

lemma loadSiteRatings_total_is_sum:
  assumes "\<forall>t. siteRatings st = Some t \<longrightarrow> totalRatings t = safeCount t + unsafeCount t"
    and "siteRatings (fst (loadSiteRatings svc schema eth url (st, fx))) = Some t"
  shows "totalRatings t = safeCount t + unsafeCount t"
  using loadSiteRatings_siteRatings [of svc schema eth url st fx] assms
  by (auto dest: fetch_tally_total)

text \<open>
  Claim C3. The site ratings of two records whose signers are \<open>0xABC\<close> and \<open>0xabc\<close>, both
  rating the site safe: the tally that \<open>loadSiteRatings\<close> publishes has its total equal to
  safe + unsafe, but the total is 2 where the records have one distinct signer once
  lower-cased. The tally of the votes of a comment, whose signers are lower-cased, has
  upvotes + downvotes equal to the number of distinct signers.
\<close>

theorem site_total_exceeds_distinct_signers:
  "siteRatings (fst (loadSiteRatings (memory_service example_ratings no_call) (Some ''safety'')
       None ''Example.com'' (initial_site_state, no_effects)))
     = Some \<lparr>safeCount = 2, unsafeCount = 0, totalRatings = 2\<rparr>
   \<and> card (toLowerCase ` signer ` set example_ratings) = 1
   \<and> upvotes (tally None example_votes) + downvotes (tally None example_votes)
       = card (signer_key ` set example_votes)"
proof -
  have 1: "siteRatings (fst (loadSiteRatings (memory_service example_ratings no_call)
       (Some ''safety'') None ''Example.com'' (initial_site_state, no_effects)))
     = Some \<lparr>safeCount = 2, unsafeCount = 0, totalRatings = 2\<rparr>"
    by code_simp
  have 2: "card (toLowerCase ` signer ` set example_ratings) = 1"
    by (simp add: example_ratings_def attestation_of_def toLowerCase_def toLowerCase_char_def)
  have "\<forall>a \<in> set example_votes. counted a"
    by (simp add: example_votes_def counted_def attestation_of_def)
  then have 3: "upvotes (tally None example_votes) + downvotes (tally None example_votes)
       = card (signer_key ` set example_votes)"
    by (rule votes_total_all_counted)
  from 1 2 3 show ?thesis by blast
qed

theorem site_total_exceeds_distinct_signers_witness:
  "map_option totalRatings
     (siteRatings (fst (loadSiteRatings (memory_service example_ratings no_call) (Some ''safety'')
        None ''Example.com'' (initial_site_state, no_effects))))
     \<noteq> Some (card (toLowerCase ` signer ` set example_ratings))"
  using site_total_exceeds_distinct_signers by simp

section \<open>Missing configuration\<close>

text \<open>
  Claim C5, as amended. When the schema identifier of a pipeline is absent (or empty), the
  pipeline calls the attestation service not at all and raises nothing:
  \<open>loadSiteRatings\<close> returns with the state of the provider and every effect exactly as
  they were, so that the published tally stays what it was (\<open>null\<close> when nothing was
  published before); \<open>getVotesForComments\<close> writes one line to the console and returns the
  empty vote map.
\<close>

theorem missing_schema_no_op:
  "(\<not> truthy schema \<longrightarrow>
      loadSiteRatings svc schema eth url (st, fx) = (st, fx)
      \<and> io (snd (loadSiteRatings svc schema eth url (st, fx))) = io fx)
   \<and> (\<not> truthy vschema \<longrightarrow>
      getVotesForComments vsvc vschema veth commentIds (vst, vfx)
        = ([], vst,
           vfx\<lparr>console := console vfx @ [ConsoleLog ''VOTE_SCHEMA_ID is not defined'']\<rparr>)
      \<and> io (snd (snd (getVotesForComments vsvc vschema veth commentIds (vst, vfx)))) = io vfx)"
  by (simp add: loadSiteRatings_skip getVotesForComments_skip)

text \<open>
  Without a schema identifier the first load of the provider leaves the tally \<open>null\<close>: it
  is not the tally of zero ratings.
\<close>

theorem missing_schema_counterexample:
  "siteRatings (fst (loadSiteRatings (memory_service example_ratings no_call) None None
       ''example.com'' (initial_site_state, no_effects)))
     \<noteq> Some \<lparr>safeCount = 0, unsafeCount = 0, totalRatings = 0\<rparr>"
  by (simp add: loadSiteRatings_skip initial_site_state_def)

theorem missing_schema_witness:
  "loadSiteRatings (memory_service example_ratings no_call) None (Some ''0xabc'') ''example.com''
       (published_state, no_effects) = (published_state, no_effects)
   \<and> fst (getVotesForComments (memory_service example_votes no_call) (Some []) (Some ''0xabc'')
       [''comment-1''] (\<lparr>votesLoading = False, votesError = None\<rparr>, no_effects)) = []"
  using missing_schema_no_op [where schema = None
      and svc = "memory_service example_ratings no_call" and eth = "Some ''0xabc''"
      and url = "''example.com''" and st = published_state and fx = no_effects
      and vschema = "Some []" and vsvc = "memory_service example_votes no_call"
      and veth = "Some ''0xabc''" and vfx = no_effects and commentIds = "[''comment-1'']"
      and vst = "\<lparr>votesLoading = False, votesError = None\<rparr>"]
  by simp

section \<open>Submissions\<close>

text \<open>
  Claim C6, as amended. A submission without a schema identifier, a subject or a current
  identity is given up before any call to the attestation service. \<open>rateSite\<close> throws the
  error \<open>Missing required information to rate site\<close> to its caller and changes nothing;
  \<open>voteOnComment\<close> shows one error toast and returns normally, with nothing else changed.
\<close>

theorem submission_preconditions:
  "(\<not> truthy schema \<or> currentUrl st = [] \<or> \<not> truthy eth \<longrightarrow>
      rateSite svc schema eth userData b (st, fx)
        = (Inl ''Missing required information to rate site'', st, fx))
   \<and> (\<not> truthy vschema \<or> commentId = [] \<or> \<not> truthy veth \<longrightarrow>
      voteOnComment vsvc vschema veth commentId up vfx
        = (Inr (), vfx\<lparr>toasts := toasts vfx @ [error_toast ''Cannot vote: missing data'']\<rparr>))"
  using rateSite_missing [of schema st eth userData svc b fx]
    voteOnComment_missing [of vschema commentId veth vsvc up vfx]
  by blast

text \<open>
  A vote without a schema identifier: the promise does not reject.
\<close>

theorem submission_preconditions_counterexample:
  "\<not> isl (fst (voteOnComment (memory_service example_votes no_call) None (Some ''0xabc'')
       ''comment-1'' True no_effects))"
  by (simp add: voteOnComment_missing)

theorem submission_preconditions_witness:
  "rateSite (memory_service example_ratings no_call) (Some ''safety'') None
       (Some \<lparr>email = Some ''a@b.c''\<rparr>) True (published_state, no_effects)
     = (Inl ''Missing required information to rate site'', published_state, no_effects)
   \<and> io (snd (voteOnComment (memory_service example_votes no_call) (Some ''votes'') (Some ''0xabc'')
       [] True no_effects)) = []"
  using submission_preconditions [where schema = "Some ''safety''" and st = published_state
      and eth = None and svc = "memory_service example_ratings no_call"
      and userData = "Some \<lparr>email = Some ''a@b.c''\<rparr>" and b = True and fx = no_effects
      and vschema = "Some ''votes''" and veth = "Some ''0xabc''"
      and commentId = "[]" and vsvc = "memory_service example_votes no_call" and up = True
      and vfx = no_effects]
  by (simp add: no_effects_def)


text \<open>
  Claim C7. When the preconditions of a submission hold and the write to the attestation
  service is rejected, \<open>rateSite\<close> leaves the published tally and the rating of the user
  as they were, shows exactly one toast, the error toast, and rethrows the error;
  \<open>voteOnComment\<close>, which holds no tally, shows exactly one toast, the error toast.
\<close>

theorem submission_failure:
  "(truthy schema \<and> currentUrl st \<noteq> [] \<and> truthy eth \<and> truthy (Option.bind userData email)
      \<and> createAttestation svc (the schema) (currentUrl st) (SafetyRating (currentUrl st) b)
            (world fx) = (Inl err, w)
    \<longrightarrow> (\<exists>st' fx'. rateSite svc schema eth userData b (st, fx) = (Inl err, st', fx')
           \<and> siteRatings st' = siteRatings st \<and> userRating st' = userRating st
           \<and> toasts fx' = toasts fx @ [error_toast (''Failed to rate site: '' @ err)]))
   \<and> (truthy vschema \<and> commentId \<noteq> [] \<and> truthy veth
      \<and> createAttestation vsvc (the vschema) commentId
            (CommentVote commentId (if up then 1 else - 1)) (world vfx) = (Inl verr, vw)
    \<longrightarrow> (\<exists>fx'. voteOnComment vsvc vschema veth commentId up vfx = (Inr (), fx')
           \<and> toasts fx' = toasts vfx @ [error_toast (''Failed to vote: '' @ verr)]))"
proof -
  have r: "\<exists>st' fx'. rateSite svc schema eth userData b (st, fx) = (Inl err, st', fx')
           \<and> siteRatings st' = siteRatings st \<and> userRating st' = userRating st
           \<and> toasts fx' = toasts fx @ [error_toast (''Failed to rate site: '' @ err)]"
    if "truthy schema" "currentUrl st \<noteq> []" "truthy eth" "truthy (Option.bind userData email)"
      "createAttestation svc (the schema) (currentUrl st) (SafetyRating (currentUrl st) b)
            (world fx) = (Inl err, w)"
    using rateSite_write_fails [OF that] by simp
  have v: "\<exists>fx'. voteOnComment vsvc vschema veth commentId up vfx = (Inr (), fx')
           \<and> toasts fx' = toasts vfx @ [error_toast (''Failed to vote: '' @ verr)]"
    if "truthy vschema" "commentId \<noteq> []" "truthy veth"
      "createAttestation vsvc (the vschema) commentId
            (CommentVote commentId (if up then 1 else - 1)) (world vfx) = (Inl verr, vw)"
    using voteOnComment_write_fails [OF that] by simp
  from r v show ?thesis by blast
qed

theorem submission_failure_witness:
  "(\<exists>st' fx'. rateSite (memory_service example_ratings rejects_writes) (Some ''safety'')
         (Some ''0xabc'') (Some \<lparr>email = Some ''a@b.c''\<rparr>) False (published_state, no_effects)
         = (Inl ''service unavailable'', st', fx')
       \<and> siteRatings st' = Some \<lparr>safeCount = 2, unsafeCount = 1, totalRatings = 3\<rparr>
       \<and> userRating st' = Some True
       \<and> toasts fx' = [error_toast ''Failed to rate site: service unavailable''])
   \<and> (\<exists>fx'. voteOnComment (memory_service example_votes rejects_writes) (Some ''votes'')
         (Some ''0xabc'') ''comment-1'' True no_effects = (Inr (), fx')
       \<and> toasts fx' = [error_toast ''Failed to vote: service unavailable''])"
proof -
  have 1: "createAttestation (memory_service example_ratings rejects_writes) (the (Some ''safety''))
       (currentUrl published_state) (SafetyRating (currentUrl published_state) False)
       (world no_effects) = (Inl ''service unavailable'', ())"
    by (simp add: memory_service_def rejects_writes_def)
  have 2: "createAttestation (memory_service example_votes rejects_writes) (the (Some ''votes''))
       ''comment-1'' (CommentVote ''comment-1'' (if True then 1 else - 1))
       (world no_effects) = (Inl ''service unavailable'', ())"
    by (simp add: memory_service_def rejects_writes_def)
  have 3: "currentUrl published_state \<noteq> []" "siteRatings published_state
      = Some \<lparr>safeCount = 2, unsafeCount = 1, totalRatings = 3\<rparr>"
    "userRating published_state = Some True" "toasts no_effects = []"
    by (simp_all add: published_state_def no_effects_def)
  show ?thesis
    using submission_failure [where schema = "Some ''safety''" and st = published_state
        and eth = "Some ''0xabc''" and userData = "Some \<lparr>email = Some ''a@b.c''\<rparr>"
        and svc = "memory_service example_ratings rejects_writes" and b = False
        and fx = no_effects and err = "''service unavailable''" and w = "()"
        and vschema = "Some ''votes''" and veth = "Some ''0xabc''"
        and vsvc = "memory_service example_votes rejects_writes" and vfx = no_effects
        and verr = "''service unavailable''" and vw = "()"
        and commentId = "''comment-1''" and up = True] 1 2 3
    by (simp add: memory_service_def rejects_writes_def)
qed


section \<open>Failed loads\<close>





section \<open>Signers that differ in letter case\<close>

text \<open>
  Claim C2. The site ratings of two records whose signers are \<open>0xABC\<close> and \<open>0xabc\<close>, both
  rating the site safe: \<open>loadSiteRatings\<close> publishes two safe ratings for what is one
  signer once lower-cased, while the reduction of the comment votes keeps a single entry
  for the same two records.
\<close>

theorem site_counts_case_variants_twice:
  "siteRatings (fst (loadSiteRatings (memory_service example_ratings no_call) (Some ''safety'')
       None ''Example.com'' (initial_site_state, no_effects)))
     = Some \<lparr>safeCount = 2, unsafeCount = 0, totalRatings = 2\<rparr>
   \<and> map (toLowerCase \<circ> signer) example_ratings = [''0xabc'', ''0xabc'']
   \<and> map fst (userVotes example_ratings) = [''0xabc'']"
  by code_simp

theorem site_counts_case_variants_twice_witness:
  "map_option totalRatings
     (siteRatings (fst (loadSiteRatings (memory_service example_ratings no_call) (Some ''safety'')
        None ''Example.com'' (initial_site_state, no_effects)))) = Some 2"
  using site_counts_case_variants_twice by simp

section \<open>The anonymous viewer\<close>

text \<open>
  Claim C9. A load by an anonymous viewer after a signed-in user saw their rating
  published: \<open>loadSiteRatings\<close> publishes the new tally and leaves the rating of the user,
  \<open>true\<close>, in place, while the tally of a comment gives an anonymous viewer no vote.
\<close>

theorem anonymous_load_keeps_rating:
  "userRating (fst (loadSiteRatings (memory_service example_ratings no_call) (Some ''safety'')
       None ''Example.com'' (published_state, no_effects))) = Some True
   \<and> siteRatings (fst (loadSiteRatings (memory_service example_ratings no_call) (Some ''safety'')
       None ''Example.com'' (published_state, no_effects)))
      = Some \<lparr>safeCount = 2, unsafeCount = 0, totalRatings = 2\<rparr>
   \<and> userVote (tally None example_votes) = None"
  by code_simp

theorem anonymous_load_keeps_rating_witness:
  "userRating (fst (loadSiteRatings (memory_service example_ratings no_call) (Some ''safety'')
       None ''Example.com'' (published_state, no_effects))) \<noteq> None"
  using anonymous_load_keeps_rating by simp

section \<open>The promise of a vote\<close>

text \<open>
  Claim C10. The promise of \<open>voteOnComment\<close> resolves with no value for every input and
  every answer of the attestation service. With a precondition missing it shows the toast
  \<open>Cannot vote: missing data\<close> and logs nothing; when the write is rejected it logs the
  error to the console and shows the toast \<open>Failed to vote\<close> with the error's message.
  \<open>rateSite\<close> in the same two cases rejects: it throws the error of the missing
  information, or rethrows the error of the write.
\<close>

theorem voteOnComment_never_rejects:
  "fst (voteOnComment vsvc vschema veth commentId up vfx) = Inr ()
   \<and> (\<not> truthy vschema \<or> commentId = [] \<or> \<not> truthy veth \<longrightarrow>
        toasts (snd (voteOnComment vsvc vschema veth commentId up vfx))
          = toasts vfx @ [error_toast ''Cannot vote: missing data'']
        \<and> console (snd (voteOnComment vsvc vschema veth commentId up vfx)) = console vfx)
   \<and> (truthy vschema \<and> commentId \<noteq> [] \<and> truthy veth
        \<and> createAttestation vsvc (the vschema) commentId
              (CommentVote commentId (if up then 1 else - 1)) (world vfx) = (Inl verr, vw)
      \<longrightarrow> toasts (snd (voteOnComment vsvc vschema veth commentId up vfx))
            = toasts vfx @ [error_toast (''Failed to vote: '' @ verr)]
          \<and> console (snd (voteOnComment vsvc vschema veth commentId up vfx))
            = console vfx @ [ConsoleError ''Error voting on comment:'' verr])
   \<and> (\<not> truthy schema \<or> currentUrl st = [] \<or> \<not> truthy eth \<longrightarrow>
        fst (rateSite svc schema eth userData b (st, fx))
          = Inl ''Missing required information to rate site'')
   \<and> (truthy schema \<and> currentUrl st \<noteq> [] \<and> truthy eth \<and> truthy (Option.bind userData email)
        \<and> createAttestation svc (the schema) (currentUrl st) (SafetyRating (currentUrl st) b)
              (world fx) = (Inl err, w)
      \<longrightarrow> fst (rateSite svc schema eth userData b (st, fx)) = Inl err)"
proof -
  have 1: "toasts (snd (voteOnComment vsvc vschema veth commentId up vfx))
          = toasts vfx @ [error_toast ''Cannot vote: missing data'']
        \<and> console (snd (voteOnComment vsvc vschema veth commentId up vfx)) = console vfx"
    if "\<not> truthy vschema \<or> commentId = [] \<or> \<not> truthy veth"
    by (simp add: voteOnComment_missing [OF that])
  have 2: "toasts (snd (voteOnComment vsvc vschema veth commentId up vfx))
            = toasts vfx @ [error_toast (''Failed to vote: '' @ verr)]
          \<and> console (snd (voteOnComment vsvc vschema veth commentId up vfx))
            = console vfx @ [ConsoleError ''Error voting on comment:'' verr]"
    if "truthy vschema" "commentId \<noteq> []" "truthy veth"
      "createAttestation vsvc (the vschema) commentId
              (CommentVote commentId (if up then 1 else - 1)) (world vfx) = (Inl verr, vw)"
    by (simp add: voteOnComment_write_fails [OF that])
  have 3: "fst (rateSite svc schema eth userData b (st, fx))
          = Inl ''Missing required information to rate site''"
    if "\<not> truthy schema \<or> currentUrl st = [] \<or> \<not> truthy eth"
    using that rateSite_missing [of schema st eth userData svc b fx] by auto
  have 4: "fst (rateSite svc schema eth userData b (st, fx)) = Inl err"
    if "truthy schema" "currentUrl st \<noteq> []" "truthy eth" "truthy (Option.bind userData email)"
      "createAttestation svc (the schema) (currentUrl st) (SafetyRating (currentUrl st) b)
              (world fx) = (Inl err, w)"
    by (simp add: rateSite_write_fails [OF that])
  from 1 2 3 4 voteOnComment_resolves [of vsvc vschema veth commentId up vfx]
  show ?thesis by blast
qed

theorem voteOnComment_never_rejects_witness:
  "voteOnComment (memory_service example_votes rejects_writes) (Some ''votes'') (Some ''0xabc'')
       ''comment-1'' False no_effects
     = (Inr (),
        \<lparr>world = (),
         io = [CreateAttestation ''votes'' ''comment-1'' (CommentVote ''comment-1'' (- 1))],
         console = [ConsoleError ''Error voting on comment:'' ''service unavailable''],
         toasts = [error_toast ''Failed to vote: service unavailable'']\<rparr>)
   \<and> fst (rateSite (memory_service example_ratings rejects_writes) (Some ''safety'')
        (Some ''0xabc'') (Some \<lparr>email = Some ''a@b.c''\<rparr>) False (published_state, no_effects))
     = Inl ''service unavailable''"
proof -
  have 1: "createAttestation (memory_service example_ratings rejects_writes) (the (Some ''safety''))
       (currentUrl published_state) (SafetyRating (currentUrl published_state) False)
       (world no_effects) = (Inl ''service unavailable'', ())"
    by (simp add: memory_service_def rejects_writes_def)
  have 2: "createAttestation (memory_service example_votes rejects_writes) (the (Some ''votes''))
       ''comment-1'' (CommentVote ''comment-1'' (if False then 1 else - 1))
       (world no_effects) = (Inl ''service unavailable'', ())"
    by (simp add: memory_service_def rejects_writes_def)
  have 3: "currentUrl published_state \<noteq> []"
    by (simp add: published_state_def)
  have 4: "voteOnComment (memory_service example_votes rejects_writes) (Some ''votes'')
       (Some ''0xabc'') ''comment-1'' False no_effects
     = (Inr (),
        \<lparr>world = (),
         io = [CreateAttestation ''votes'' ''comment-1'' (CommentVote ''comment-1'' (- 1))],
         console = [ConsoleError ''Error voting on comment:'' ''service unavailable''],
         toasts = [error_toast ''Failed to vote: service unavailable'']\<rparr>)"
    by (simp add: voteOnComment_def await_createAttestation_def memory_service_def
        rejects_writes_def no_effects_def)
  show ?thesis
    using voteOnComment_never_rejects [where schema = "Some ''safety''" and st = published_state
        and eth = "Some ''0xabc''" and userData = "Some \<lparr>email = Some ''a@b.c''\<rparr>"
        and svc = "memory_service example_ratings rejects_writes" and b = False
        and fx = no_effects and err = "''service unavailable''" and w = "()"
        and vschema = "Some ''votes''" and veth = "Some ''0xabc''"
        and vsvc = "memory_service example_votes rejects_writes" and vfx = no_effects
        and verr = "''service unavailable''" and vw = "()"
        and commentId = "''comment-1''" and up = False] 1 2 3 4
    by simp
qed


section \<open>The judgment of the current user\<close>

text \<open>
  Claim C4. With a current identity known and a service that serves the records of every
  comment, the entry that \<open>getVotesForComments\<close> returns for a comment carries as
  \<open>userVote\<close> the vote of the latest record of that identity (compared lower-cased) among
  the records of the comment when there is one, and \<open>null\<close> when there is none. A load of
  the site ratings that completes publishes as \<open>userRating\<close> the \<open>isSafe\<close> of the record
  that the lookup of the latest attestation of the identity returned, and \<open>null\<close> when it
  returned none.
\<close>

theorem own_judgment:
  "(truthy vschema \<and> serves vsvc (the vschema) records \<and> c \<in> set commentIds \<longrightarrow>
      (\<exists>e. map_of (fst (getVotesForComments vsvc vschema (Some addr) commentIds (vst, vfx))) c
              = Some e
         \<and> userVote e
              = map_option (\<lambda>r. vote (decodedData r)) (latest_of (records c) (toLowerCase addr))
         \<and> ((\<exists>a \<in> set (records c). signer_key a = toLowerCase addr) \<longrightarrow>
               (\<exists>r. latest_of (records c) (toLowerCase addr) = Some r
                  \<and> userVote e = Some (vote (decodedData r))))
         \<and> ((\<forall>a \<in> set (records c). signer_key a \<noteq> toLowerCase addr) \<longrightarrow> userVote e = None)))
   \<and> (truthy schema \<and> url \<noteq> [] \<and> saddr \<noteq> []
        \<and> fetch_tally svc (the schema) (toLowerCase url) fx = (Inr t, fx1)
        \<and> getLatestAttestationForUser svc (the schema) (toLowerCase url) saddr (world fx1)
              = (Inr ua, w)
      \<longrightarrow> userRating (fst (loadSiteRatings svc schema (Some saddr) url (st, fx)))
            = (case ua of None \<Rightarrow> None | Some a \<Rightarrow> Some (isSafe (decodedData a))))"
proof -
  have v: "\<exists>e. map_of (fst (getVotesForComments vsvc vschema (Some addr) commentIds (vst, vfx))) c
              = Some e
         \<and> userVote e
              = map_option (\<lambda>r. vote (decodedData r)) (latest_of (records c) (toLowerCase addr))
         \<and> ((\<exists>a \<in> set (records c). signer_key a = toLowerCase addr) \<longrightarrow>
               (\<exists>r. latest_of (records c) (toLowerCase addr) = Some r
                  \<and> userVote e = Some (vote (decodedData r))))
         \<and> ((\<forall>a \<in> set (records c). signer_key a \<noteq> toLowerCase addr) \<longrightarrow> userVote e = None)"
    if h: "truthy vschema" "serves vsvc (the vschema) records" "c \<in> set commentIds"
  proof -
    let ?e = "tally (Some addr) (records c)"
    let ?k = "toLowerCase addr"
    have 1: "map_of (fst (getVotesForComments vsvc vschema (Some addr) commentIds (vst, vfx))) c
        = Some ?e"
      using h by (rule getVotesForComments_serves)
    have 2: "userVote ?e = map_option (\<lambda>r. vote (decodedData r)) (latest_of (records c) ?k)"
      by (simp add: userVote_tally)
    have 3: "\<exists>r. latest_of (records c) ?k = Some r \<and> userVote ?e = Some (vote (decodedData r))"
      if "\<exists>a \<in> set (records c). signer_key a = ?k"
    proof -
      from that have "?k \<in> signer_key ` set (records c)"
        by (metis imageI)
      then have "latest_of (records c) ?k \<noteq> None"
        by (simp add: latest_of_None_iff)
      then show ?thesis using 2 by auto
    qed
    have 4: "userVote ?e = None" if "\<forall>a \<in> set (records c). signer_key a \<noteq> ?k"
    proof -
      from that have "latest_of (records c) ?k = None"
        by (auto simp: latest_of_None_iff)
      then show ?thesis using 2 by simp
    qed
    from 1 2 3 4 show ?thesis by blast
  qed
  have s: "userRating (fst (loadSiteRatings svc schema (Some saddr) url (st, fx)))
            = (case ua of None \<Rightarrow> None | Some a \<Rightarrow> Some (isSafe (decodedData a)))"
    if h: "truthy schema" "url \<noteq> []" "saddr \<noteq> []"
      "fetch_tally svc (the schema) (toLowerCase url) fx = (Inr t, fx1)"
      "getLatestAttestationForUser svc (the schema) (toLowerCase url) saddr (world fx1)
              = (Inr ua, w)"
    using loadSiteRatings_own_found [of schema url "Some saddr" svc fx t fx1 ua w st] h
    by (simp split: option.splits)
  from v s show ?thesis by blast
qed

theorem own_judgment_witness:
  "(\<exists>e. map_of (fst (getVotesForComments (memory_service example_votes no_call) (Some ''votes'')
            (Some ''0xABC'') [''comment-1'']
            (\<lparr>votesLoading = False, votesError = None\<rparr>, no_effects))) ''comment-1'' = Some e
       \<and> userVote e = Some (- 1))
   \<and> userRating (fst (loadSiteRatings (memory_service example_ratings no_call) (Some ''safety'')
        (Some ''0xAbC'') ''Example.com'' (initial_site_state, no_effects))) = Some True"
proof -
  let ?vsvc = "memory_service example_votes no_call"
  let ?svc = "memory_service example_ratings no_call"
  let ?fx1 = "\<lparr>world = (),
      io = [GetAttestations ''safety'' ''example.com'',
            GetLatestAttestationForUser ''safety'' ''example.com'' ''0xABC'',
            GetLatestAttestationForUser ''safety'' ''example.com'' ''0xabc''],
      console = [], toasts = []\<rparr>"
  have 1: "truthy (Some ''votes'')" "''comment-1'' \<in> set [''comment-1'']"
    "truthy (Some ''safety'')" "''Example.com'' \<noteq> []" "''0xAbC'' \<noteq> []"
    by simp_all
  have 2: "serves ?vsvc (the (Some ''votes'')) (\<lambda>c. example_votes)"
    by (simp add: serves_def memory_service_def no_call_def)
  have 3: "latest_of example_votes (toLowerCase ''0xABC'')
      = Some (attestation_of ''0xabc'' 20 True (- 1))"
    by code_simp
  have 4: "fetch_tally ?svc (the (Some ''safety'')) (toLowerCase ''Example.com'') no_effects
      = (Inr \<lparr>safeCount = 2, unsafeCount = 0, totalRatings = 2\<rparr>, ?fx1)"
    by code_simp
  have 5: "getLatestAttestationForUser ?svc (the (Some ''safety'')) (toLowerCase ''Example.com'')
      ''0xAbC'' (world ?fx1) = (Inr (Some (attestation_of ''0xabc'' 20 True 0)), ())"
    by code_simp
  note T = own_judgment [where vschema = "Some ''votes''" and vsvc = ?vsvc
      and records = "\<lambda>c. example_votes" and c = "''comment-1''"
      and commentIds = "[''comment-1'']" and addr = "''0xABC''"
      and vst = "\<lparr>votesLoading = False, votesError = None\<rparr>" and vfx = no_effects
      and schema = "Some ''safety''" and url = "''Example.com''" and saddr = "''0xAbC''"
      and svc = ?svc and fx = no_effects
      and t = "\<lparr>safeCount = 2, unsafeCount = 0, totalRatings = 2\<rparr>" and ?fx1.0 = ?fx1
      and ua = "Some (attestation_of ''0xabc'' 20 True 0)" and w = "()"
      and st = initial_site_state]
  from T 1 2 have a: "\<exists>e. map_of (fst (getVotesForComments ?vsvc (Some ''votes'')
            (Some ''0xABC'') [''comment-1'']
            (\<lparr>votesLoading = False, votesError = None\<rparr>, no_effects))) ''comment-1'' = Some e
       \<and> userVote e = map_option (\<lambda>r. vote (decodedData r))
            (latest_of example_votes (toLowerCase ''0xABC''))"
    by blast
  from T 1 4 5 have b: "userRating (fst (loadSiteRatings ?svc (Some ''safety'')
        (Some ''0xAbC'') ''Example.com'' (initial_site_state, no_effects)))
      = (case Some (attestation_of ''0xabc'' 20 True 0) of None \<Rightarrow> None
         | Some a \<Rightarrow> Some (isSafe (decodedData a)))"
    by blast
  from a b 3 show ?thesis
    by (simp add: attestation_of_def)
qed

end
